theory Spec2Isabelle
  imports Complex_Main "HOL-Library.Word"
begin

section \<open>Exceptions and the USB library as an environment\<close>

text \<open>
  The Python exception classes the two modules raise, catch or let through.
  In pyusb \<open>USBTimeoutError\<close> is a subclass of \<open>USBError\<close>; \<open>USBError\<close> carries an errno.
\<close>

datatype exn =
    USBError int
  | USBTimeoutError
  | ValueError
  | NotImplementedError
  | RuntimeError string
  | ZeroDivisionError
  | OtherError string

text \<open>\<open>except usb.core.USBError\<close> catches the class and its subclass.\<close>

fun is_USBError :: "exn \<Rightarrow> bool" where
  "is_USBError (USBError _) = True"
| "is_USBError USBTimeoutError = True"
| "is_USBError _ = False"

type_synonym byte = "8 word"

text \<open>A device handle of the USB library is identified by a number.\<close>

type_synonym dev = nat

text \<open>
  Every call into the USB library is an event; the history of the calls made so far is the
  state of the outside world as the program sees it.
\<close>

datatype call =
    Find
  | Get_string dev
  | Is_kernel_driver_active dev int
  | Detach_kernel_driver dev int
  | Claim_interface dev int
  | Release_interface dev int
  | Attach_kernel_driver dev int
  | Dispose_resources dev
  | Dev_read dev int int

text \<open>
  The USB library is not part of the repository: it is a parameter. Each operation answers
  from the history of calls so far and its arguments, with a value or a raised exception
  (\<open>Inl\<close>); for an operation that returns nothing, \<open>None\<close> is normal completion and
  \<open>Some e\<close> a raised exception. \<open>enumerate\<close> is the list of attached devices that match
  the vendor and product id, in the order \<open>usb.core.find\<close> yields them.
\<close>

record usb_env =
  enumerate :: "call list \<Rightarrow> exn + dev list"
  get_string :: "call list \<Rightarrow> dev \<Rightarrow> exn + string option"
  is_kernel_driver_active :: "call list \<Rightarrow> dev \<Rightarrow> int \<Rightarrow> exn + bool"
  detach_kernel_driver :: "call list \<Rightarrow> dev \<Rightarrow> int \<Rightarrow> exn option"
  claim_interface :: "call list \<Rightarrow> dev \<Rightarrow> int \<Rightarrow> exn option"
  release_interface :: "call list \<Rightarrow> dev \<Rightarrow> int \<Rightarrow> exn option"
  attach_kernel_driver :: "call list \<Rightarrow> dev \<Rightarrow> int \<Rightarrow> exn option"
  dispose_resources :: "call list \<Rightarrow> dev \<Rightarrow> exn option"
  dev_read :: "call list \<Rightarrow> dev \<Rightarrow> int \<Rightarrow> int \<Rightarrow> exn + byte list"

section \<open>chaoskey\_utils: constants and the device session\<close>

definition ENDPOINT_COOKED :: int where "ENDPOINT_COOKED = 0x85"
definition ENDPOINT_RAW :: int where "ENDPOINT_RAW = 0x86"
definition ENDPOINT_FLASH :: int where "ENDPOINT_FLASH = 0x87"
definition BULK_TRANSFER_SIZE :: int where "BULK_TRANSFER_SIZE = 1024"

record ChaosKeyDevice =
  serial :: "string option"
  device :: "dev option"
  kernel_was_active :: bool
  interface :: int

text \<open>\<open>ChaosKeyDevice.__init__\<close>\<close>

definition init :: "string option \<Rightarrow> ChaosKeyDevice" where
  "init s = \<lparr>serial = s, device = None, kernel_was_active = False, interface = 0\<rparr>"

subsection \<open>ChaosKeyDevice.read\<close>

text \<open>
  One pass through the body of \<open>while remaining > 0\<close>: the request for the next chunk and
  what follows it. \<open>Next\<close> carries the new buffer and the new value of \<open>remaining\<close>;
  \<open>Break\<close> leaves the loop with the buffer unchanged; \<open>Raise\<close> leaves \<open>read\<close> with an exception.
\<close>

datatype loop_exit = Next "byte list" int | Break | Raise exn

definition read_body ::
  "usb_env \<Rightarrow> dev \<Rightarrow> int \<Rightarrow> byte list \<Rightarrow> int \<Rightarrow> call list \<Rightarrow> loop_exit" where
  "read_body env d endpoint buffer remaining h =
     (let chunk_size = min remaining BULK_TRANSFER_SIZE in
      case dev_read env h d endpoint chunk_size of
        Inr data \<Rightarrow>
          if length data = 0 then Break
          else Next (buffer @ data) (remaining - int (length data))
      | Inl e \<Rightarrow>
          if e = USBTimeoutError then (if buffer \<noteq> [] then Break else Raise e)
          else Raise e)"

function read_loop ::
  "usb_env \<Rightarrow> dev \<Rightarrow> int \<Rightarrow> byte list \<Rightarrow> int \<Rightarrow> call list \<Rightarrow> (exn + byte list) \<times> call list"
  where
  "read_loop env d endpoint buffer remaining h =
     (if remaining > 0 then
        (let h' = h @ [Dev_read d endpoint (min remaining BULK_TRANSFER_SIZE)] in
         case read_body env d endpoint buffer remaining h of
           Next buffer' remaining' \<Rightarrow> read_loop env d endpoint buffer' remaining' h'
         | Break \<Rightarrow> (Inr buffer, h')
         | Raise e \<Rightarrow> (Inl e, h'))
      else (Inr buffer, h))"
  by pat_completeness auto
termination
  by (relation "measure (\<lambda>(env, d, endpoint, buffer, remaining, h). nat remaining)")
     (auto simp: read_body_def Let_def split: sum.splits if_splits)

declare read_loop.simps [simp del]

text \<open>
  The states at the head of the loop during one call \<open>read(endpoint, sz)\<close> that starts with
  history \<open>h0\<close>: the buffer, \<open>remaining\<close> and the history each time the \<open>while\<close> condition
  is about to be tested.
\<close>

inductive loop_head ::
  "usb_env \<Rightarrow> dev \<Rightarrow> int \<Rightarrow> int \<Rightarrow> call list \<Rightarrow> byte list \<Rightarrow> int \<Rightarrow> call list \<Rightarrow> bool"
  for env d endpoint sz h0 where
  start: "loop_head env d endpoint sz h0 [] sz h0"
| step: "loop_head env d endpoint sz h0 buffer remaining h \<Longrightarrow> remaining > 0 \<Longrightarrow>
         read_body env d endpoint buffer remaining h = Next buffer' remaining' \<Longrightarrow>
         loop_head env d endpoint sz h0 buffer' remaining'
           (h @ [Dev_read d endpoint (min remaining BULK_TRANSFER_SIZE)])"

definition read ::
  "usb_env \<Rightarrow> ChaosKeyDevice \<Rightarrow> int \<Rightarrow> int \<Rightarrow> call list \<Rightarrow> (exn + byte list) \<times> call list"
  where
  "read env self endpoint sz h =
     (case device self of
        None \<Rightarrow> (Inl (RuntimeError ''Device not open''), h)
      | Some d \<Rightarrow> read_loop env d endpoint [] sz h)"

subsection \<open>ChaosKeyDevice.\_\_enter\_\_\<close>

text \<open>
  The loop over the candidates (\<open>for dev in devices\<close>): the first candidate whose serial
  string equals the filter is the result; \<open>USBError\<close> and \<open>ValueError\<close> from the descriptor
  read are caught and the scan goes on; any other exception leaves \<open>__enter__\<close>.
\<close>

fun scan_serial ::
  "usb_env \<Rightarrow> string \<Rightarrow> dev list \<Rightarrow> call list \<Rightarrow> (exn + dev option) \<times> call list" where
  "scan_serial env s [] h = (Inr None, h)"
| "scan_serial env s (dv # devices) h =
     (let h' = h @ [Get_string dv] in
      case get_string env h dv of
        Inr dev_serial \<Rightarrow>
          if dev_serial = Some s then (Inr (Some dv), h') else scan_serial env s devices h'
      | Inl e \<Rightarrow>
          if is_USBError e \<or> e = ValueError then scan_serial env s devices h'
          else (Inl e, h'))"

text \<open>
  \<open>if self._serial:\<close> is Python truthiness: \<open>None\<close> and the empty string both take the
  \<open>else\<close> branch, so the filter in force is \<open>serial_filter\<close> of the field. Without \<open>find_all\<close>, \<open>usb.core.find\<close> returns the first device of the
  enumeration, or \<open>None\<close>.
\<close>

definition serial_filter :: "string option \<Rightarrow> string option" where
  "serial_filter s = (case s of None \<Rightarrow> None | Some t \<Rightarrow> if t = [] then None else Some t)"

definition find_device ::
  "usb_env \<Rightarrow> ChaosKeyDevice \<Rightarrow> call list \<Rightarrow> exn option \<times> ChaosKeyDevice \<times> call list" where
  "find_device env self h =
     (let h1 = h @ [Find] in
      case enumerate env h of
        Inl e \<Rightarrow> (Some e, self, h1)
      | Inr devices \<Rightarrow>
          (case serial_filter (serial self) of
             Some s \<Rightarrow>
               (case scan_serial env s devices h1 of
                  (Inl e, h2) \<Rightarrow> (Some e, self, h2)
                | (Inr None, h2) \<Rightarrow> (None, self, h2)
                | (Inr (Some dv), h2) \<Rightarrow> (None, self\<lparr>device := Some dv\<rparr>, h2))
           | None \<Rightarrow>
               (None, self\<lparr>device := (case devices of [] \<Rightarrow> None | dv # _ \<Rightarrow> Some dv)\<rparr>, h1)))"

text \<open>
  The \<open>try\<close> block around the kernel driver: \<open>USBError\<close> and \<open>NotImplementedError\<close> are
  swallowed, and \<open>_kernel_was_active\<close> is set only after a detach that returned.
\<close>

definition detach_kernel ::
  "usb_env \<Rightarrow> ChaosKeyDevice \<Rightarrow> dev \<Rightarrow> call list \<Rightarrow> exn option \<times> ChaosKeyDevice \<times> call list"
  where
  "detach_kernel env self dv h =
     (let h1 = h @ [Is_kernel_driver_active dv (interface self)] in
      case is_kernel_driver_active env h dv (interface self) of
        Inl e \<Rightarrow>
          if is_USBError e \<or> e = NotImplementedError then (None, self, h1)
          else (Some e, self, h1)
      | Inr active \<Rightarrow>
          if active then
            (let h2 = h1 @ [Detach_kernel_driver dv (interface self)] in
             case detach_kernel_driver env h1 dv (interface self) of
               None \<Rightarrow> (None, self\<lparr>kernel_was_active := True\<rparr>, h2)
             | Some e \<Rightarrow>
                 if is_USBError e \<or> e = NotImplementedError then (None, self, h2)
                 else (Some e, self, h2))
          else (None, self, h1))"

text \<open>
  \<open>__enter__\<close>: the first component is \<open>None\<close> when it returns \<open>self\<close> and \<open>Some e\<close> when
  it raises \<open>e\<close>; the object keeps whatever was assigned before the exception.
\<close>

definition enter ::
  "usb_env \<Rightarrow> ChaosKeyDevice \<Rightarrow> call list \<Rightarrow> exn option \<times> ChaosKeyDevice \<times> call list" where
  "enter env self h =
     (case find_device env self h of
        (Some e, self1, h1) \<Rightarrow> (Some e, self1, h1)
      | (None, self1, h1) \<Rightarrow>
          (case device self1 of
             None \<Rightarrow> (Some (RuntimeError ''No ChaosKey device found''), self1, h1)
           | Some dv \<Rightarrow>
               (case detach_kernel env self1 dv h1 of
                  (Some e, self2, h2) \<Rightarrow> (Some e, self2, h2)
                | (None, self2, h2) \<Rightarrow>
                    (claim_interface env h2 dv (interface self2), self2,
                     h2 @ [Claim_interface dv (interface self2)]))))"

subsection \<open>ChaosKeyDevice.\_\_exit\_\_\<close>

text \<open>\<open>try: ... except usb.core.USBError: pass\<close> around one call.\<close>

definition swallow_USBError :: "exn option \<Rightarrow> exn option" where
  "swallow_USBError r = (case r of None \<Rightarrow> None | Some e \<Rightarrow> if is_USBError e then None else Some e)"

text \<open>
  \<open>__exit__\<close> does not assign to the object; it returns \<open>False\<close> or leaves with the
  exception of a cleanup step that its \<open>except\<close> clause does not catch.
\<close>

definition exit ::
  "usb_env \<Rightarrow> ChaosKeyDevice \<Rightarrow> call list \<Rightarrow> (exn + bool) \<times> call list" where
  "exit env self h =
     (case device self of
        None \<Rightarrow> (Inr False, h)
      | Some dv \<Rightarrow>
          (let h1 = h @ [Release_interface dv (interface self)] in
           case swallow_USBError (release_interface env h dv (interface self)) of
             Some e \<Rightarrow> (Inl e, h1)
           | None \<Rightarrow>
               (case (if kernel_was_active self
                      then (swallow_USBError (attach_kernel_driver env h1 dv (interface self)),
                            h1 @ [Attach_kernel_driver dv (interface self)])
                      else (None, h1)) of
                  (Some e, h2) \<Rightarrow> (Inl e, h2)
                | (None, h2) \<Rightarrow>
                    (let h3 = h2 @ [Dispose_resources dv] in
                     case swallow_USBError (dispose_resources env h2 dv) of
                       Some e \<Rightarrow> (Inl e, h3)
                     | None \<Rightarrow> (Inr False, h3)))))"

text \<open>
  The statement \<open>with ChaosKeyDevice(serial=...) as device:\<close> of \<open>main\<close>. Python calls
  \<open>__exit__\<close> only when \<open>__enter__\<close> has returned; an exception of the body is suppressed
  only when \<open>__exit__\<close> returns a true value (the result is then \<open>Inr None\<close>).
\<close>

definition with_ChaosKeyDevice ::
  "usb_env \<Rightarrow> string option \<Rightarrow> (ChaosKeyDevice \<Rightarrow> call list \<Rightarrow> (exn + 'a) \<times> call list) \<Rightarrow>
     call list \<Rightarrow> (exn + 'a option) \<times> call list" where
  "with_ChaosKeyDevice env s body h =
     (case enter env (init s) h of
        (Some e, self, h1) \<Rightarrow> (Inl e, h1)
      | (None, self, h1) \<Rightarrow>
          (case body self h1 of
             (r, h2) \<Rightarrow>
               (case exit env self h2 of
                  (Inl e, h3) \<Rightarrow> (Inl e, h3)
                | (Inr suppress, h3) \<Rightarrow>
                    (case r of
                       Inl e \<Rightarrow> if suppress then (Inr None, h3) else (Inl e, h3)
                     | Inr v \<Rightarrow> (Inr (Some v), h3)))))"

section \<open>chaoskey\_fulltest: the capture loop\<close>

text \<open>Python's \<open>/\<close> raises \<open>ZeroDivisionError\<close> on a zero divisor.\<close>

definition py_truediv :: "real \<Rightarrow> real \<Rightarrow> exn + real" where
  "py_truediv a b = (if b = 0 then Inl ZeroDivisionError else Inr (a / b))"

text \<open>
  The transfer rate of one block, from the number of bytes \<open>len(data)\<close> and the elapsed time
  (timestamps are modelled as real numbers).
\<close>

definition transfer_rate :: "nat \<Rightarrow> real \<Rightarrow> exn + real" where
  "transfer_rate n elapsed =
     (if elapsed > 0 then
        (case py_truediv (real n) (elapsed * 1000000) of
           Inl e \<Rightarrow> Inl e
         | Inr q \<Rightarrow> Inr (q * 8))
      else Inr 0)"

text \<open>What the loop prints: the two early-termination messages, the progress line, the final newline.\<close>

datatype report =
    Read_failed int exn
  | No_data int
  | Progress int int real real
  | Newline

text \<open>
  The state of a capture run: the world behind \<open>device.read\<close>, the number of calls of
  \<open>time.time()\<close> so far, the bytes written to \<open>output_file\<close>, and the console.
\<close>

record 'w capture =
  world :: 'w
  ticks :: nat
  sink :: "byte list"
  console :: "report list"

text \<open>
  \<open>for i in range(num_loops)\<close>, from index \<open>i\<close> with running total \<open>total_bytes\<close>. The
  argument \<open>rd\<close> is \<open>device.read\<close>; \<open>clock k\<close> is what the \<open>k\<close>-th call of \<open>time.time()\<close>
  returns. A \<open>USBError\<close> of the read is reported and breaks the loop; any other exception
  leaves \<open>capture_data\<close>.
\<close>

function capture_loop ::
  "(int \<Rightarrow> int \<Rightarrow> 'w \<Rightarrow> (exn + byte list) \<times> 'w) \<Rightarrow> (nat \<Rightarrow> real) \<Rightarrow> int \<Rightarrow> int \<Rightarrow> int \<Rightarrow>
     int \<Rightarrow> int \<Rightarrow> 'w capture \<Rightarrow> (exn + int) \<times> 'w capture" where
  "capture_loop rd clock endpoint num_loops block_size i total_bytes st =
     (if i < num_loops then
        (let before = clock (ticks st);
             st1 = st\<lparr>ticks := ticks st + 1\<rparr> in
         case rd endpoint block_size (world st1) of
           (Inl e, w) \<Rightarrow>
             if is_USBError e
             then (Inr total_bytes,
                   st1\<lparr>world := w, console := console st1 @ [Read_failed (i + 1) e]\<rparr>)
             else (Inl e, st1\<lparr>world := w\<rparr>)
         | (Inr data, w) \<Rightarrow>
             (let after = clock (ticks st1);
                  st2 = st1\<lparr>world := w, ticks := ticks st1 + 1\<rparr> in
              if length data = 0
              then (Inr total_bytes, st2\<lparr>console := console st2 @ [No_data (i + 1)]\<rparr>)
              else
                (let total_bytes' = total_bytes + int (length data);
                     st3 = st2\<lparr>sink := sink st2 @ data\<rparr>;
                     elapsed = after - before in
                 case transfer_rate (length data) elapsed of
                   Inl e \<Rightarrow> (Inl e, st3)
                 | Inr rate \<Rightarrow>
                     (case py_truediv (of_int ((i + 1) * 100)) (of_int num_loops) of
                        Inl e \<Rightarrow> (Inl e, st3)
                      | Inr progress \<Rightarrow>
                          capture_loop rd clock endpoint num_loops block_size (i + 1) total_bytes'
                            (st3\<lparr>console := console st3 @ [Progress (i + 1) num_loops progress rate]\<rparr>)))))
      else (Inr total_bytes, st))"
  by pat_completeness auto
termination
  by (relation "measure (\<lambda>(rd, clock, endpoint, num_loops, block_size, i, total_bytes, st).
        nat (num_loops - i))") auto

declare capture_loop.simps [simp del]

text \<open>\<open>capture_data\<close>: the loop from block 0 with total 0, then \<open>print()\<close> and the total.\<close>

definition capture_data ::
  "(int \<Rightarrow> int \<Rightarrow> 'w \<Rightarrow> (exn + byte list) \<times> 'w) \<Rightarrow> (nat \<Rightarrow> real) \<Rightarrow> int \<Rightarrow> int \<Rightarrow> int \<Rightarrow>
     'w capture \<Rightarrow> (exn + int) \<times> 'w capture" where
  "capture_data rd clock endpoint num_loops block_size st =
     (case capture_loop rd clock endpoint num_loops block_size 0 0 st of
        (Inl e, st') \<Rightarrow> (Inl e, st')
      | (Inr total_bytes, st') \<Rightarrow> (Inr total_bytes, st'\<lparr>console := console st' @ [Newline]\<rparr>))"

section \<open>Scripted environments for the concrete instances\<close>

text \<open>
  An environment with one attached device (number 0) in which no operation fails, the kernel
  driver is not active, the device has no serial string and every read returns no data.
\<close>

definition quiet_env :: usb_env where
  "quiet_env =
     \<lparr>enumerate = (\<lambda>h. Inr [0]),
      get_string = (\<lambda>h d. Inr None),
      is_kernel_driver_active = (\<lambda>h d i. Inr False),
      detach_kernel_driver = (\<lambda>h d i. None),
      claim_interface = (\<lambda>h d i. None),
      release_interface = (\<lambda>h d i. None),
      attach_kernel_driver = (\<lambda>h d i. None),
      dispose_resources = (\<lambda>h d. None),
      dev_read = (\<lambda>h d ep n. Inr [])\<rparr>"

fun is_Dev_read :: "call \<Rightarrow> bool" where
  "is_Dev_read (Dev_read _ _ _) = True"
| "is_Dev_read _ = False"

text \<open>
  A mock transport: the \<open>k\<close>-th read request is answered by the \<open>k\<close>-th entry of the script,
  whatever size was asked for; after the script, reads return no data.
\<close>

definition scripted_read ::
  "(exn + byte list) list \<Rightarrow> call list \<Rightarrow> dev \<Rightarrow> int \<Rightarrow> int \<Rightarrow> exn + byte list" where
  "scripted_read script h d ep n =
     (case drop (length (filter is_Dev_read h)) script of [] \<Rightarrow> Inr [] | r # _ \<Rightarrow> r)"

text \<open>The same transport behind a receive buffer of the requested size, as the USB library has it.\<close>

definition capped_read ::
  "(exn + byte list) list \<Rightarrow> call list \<Rightarrow> dev \<Rightarrow> int \<Rightarrow> int \<Rightarrow> exn + byte list" where
  "capped_read script h d ep n =
     (case scripted_read script h d ep n of
        Inl e \<Rightarrow> Inl e
      | Inr data \<Rightarrow> Inr (take (nat n) data))"

text \<open>A session whose \<open>__enter__\<close> has returned on device 0 without a kernel driver to detach.\<close>

definition open0 :: ChaosKeyDevice where
  "open0 = \<lparr>serial = None, device = Some 0, kernel_was_active = False, interface = 0\<rparr>"

text \<open>
  Three attached devices: the descriptor of the first cannot be read, the others have the
  serial strings \<open>AAA\<close> and \<open>BBB\<close>.
\<close>

definition three_devices :: usb_env where
  "three_devices =
     quiet_env\<lparr>enumerate := (\<lambda>h. Inr [0, 1, 2]),
               get_string := (\<lambda>h d. if d = 0 then Inl (USBError 5)
                                     else if d = 1 then Inr (Some ''AAA'')
                                     else Inr (Some ''BBB''))\<rparr>"

text \<open>
  What \<open>n\<close> successive calls \<open>rd(endpoint, block_size)\<close> answer, the first in world \<open>w\<close> and
  each later one in the world the call before it left.
\<close>

fun responses ::
  "(int \<Rightarrow> int \<Rightarrow> 'w \<Rightarrow> (exn + byte list) \<times> 'w) \<Rightarrow> int \<Rightarrow> int \<Rightarrow> nat \<Rightarrow> 'w \<Rightarrow> (exn + byte list) list"
  where
  "responses rd endpoint block_size 0 w = []"
| "responses rd endpoint block_size (Suc n) w =
     (case rd endpoint block_size w of (r, w') \<Rightarrow> r # responses rd endpoint block_size n w')"

text \<open>
  A mock device whose \<open>read\<close> answers from a script, one entry for each call; its world is the
  rest of the script, and after the script it returns no data.
\<close>

fun script_rd ::
  "int \<Rightarrow> int \<Rightarrow> (exn + byte list) list \<Rightarrow> (exn + byte list) \<times> (exn + byte list) list" where
  "script_rd endpoint n [] = (Inr [], [])"
| "script_rd endpoint n (r # rs) = (r, rs)"

text \<open>A block of one MiB of zero bytes.\<close>

definition mib_block :: "byte list" where
  "mib_block = replicate 1048576 0"

section \<open>The chunked read\<close>

lemma read_body_Next:
  "read_body env d endpoint buffer remaining h = Next b r \<Longrightarrow>
   \<exists>data. dev_read env h d endpoint (min remaining BULK_TRANSFER_SIZE) = Inr data \<and> data \<noteq> []
      \<and> b = buffer @ data \<and> r = remaining - int (length data)"
  by (auto simp: read_body_def Let_def split: sum.splits if_splits)

lemma loop_head_read_loop:
  "loop_head env d endpoint sz h0 buffer remaining h \<Longrightarrow>
   read_loop env d endpoint [] sz h0 = read_loop env d endpoint buffer remaining h"
proof (induction rule: loop_head.induct)
  case start
  show ?case by simp
next
  case (step buffer remaining h buffer' remaining')
  have "read_loop env d endpoint buffer remaining h =
        read_loop env d endpoint buffer' remaining' (h @ [Dev_read d endpoint (min remaining BULK_TRANSFER_SIZE)])"
    using step.hyps(2,3) by (subst read_loop.simps) (simp add: Let_def)
  with step.IH show ?case by simp
qed

lemma loop_head_inv:
  assumes c: "\<forall>h d ep n data. 0 < n \<longrightarrow> dev_read env h d ep n = Inr data \<longrightarrow> int (length data) \<le> n"
  shows "loop_head env d endpoint sz h0 buffer remaining h \<Longrightarrow>
     int (length buffer) + remaining = sz \<and> (0 \<le> remaining \<or> buffer = [])"
proof (induction rule: loop_head.induct)
  case start
  show ?case by simp
next
  case (step buffer remaining h buffer' remaining')
  from read_body_Next[OF step.hyps(3)] obtain data where
    d: "dev_read env h d endpoint (min remaining BULK_TRANSFER_SIZE) = Inr data"
       "buffer' = buffer @ data" "remaining' = remaining - int (length data)" by blast
  have "0 < min remaining BULK_TRANSFER_SIZE" using step.hyps(2) by (simp add: BULK_TRANSFER_SIZE_def)
  with c d(1) have "int (length data) \<le> min remaining BULK_TRANSFER_SIZE" by blast
  with step.IH d(2,3) show ?case by auto
qed

lemma read_loop_unfold:
  "0 < remaining \<Longrightarrow>
   read_loop env d endpoint buffer remaining h =
     (case read_body env d endpoint buffer remaining h of
        Next buffer' remaining' \<Rightarrow>
          read_loop env d endpoint buffer' remaining'
            (h @ [Dev_read d endpoint (min remaining BULK_TRANSFER_SIZE)])
      | Break \<Rightarrow> (Inr buffer, h @ [Dev_read d endpoint (min remaining BULK_TRANSFER_SIZE)])
      | Raise e \<Rightarrow> (Inl e, h @ [Dev_read d endpoint (min remaining BULK_TRANSFER_SIZE)]))"
  by (subst read_loop.simps) (simp add: Let_def)

lemma read_loop_done:
  "\<not> 0 < remaining \<Longrightarrow> read_loop env d endpoint buffer remaining h = (Inr buffer, h)"
  by (subst read_loop.simps) simp

lemma read_loop_result_head:
  "loop_head env d endpoint sz h0 buffer remaining h \<Longrightarrow>
   read_loop env d endpoint buffer remaining h = (Inr data, h') \<Longrightarrow>
   \<exists>r hh. loop_head env d endpoint sz h0 data r hh"
proof (induction env d endpoint buffer remaining h rule: read_loop.induct)
  case (1 env d endpoint buffer remaining h)
  show ?case
  proof (cases "remaining > 0")
    case False
    with "1.prems" show ?thesis by (auto simp: read_loop_done)
  next
    case True
    show ?thesis
    proof (cases "read_body env d endpoint buffer remaining h")
      case (Next b r)
      have lh: "loop_head env d endpoint sz h0 b r (h @ [Dev_read d endpoint (min remaining BULK_TRANSFER_SIZE)])"
        using "1.prems"(1) True Next by (rule loop_head.step)
      have "read_loop env d endpoint b r (h @ [Dev_read d endpoint (min remaining BULK_TRANSFER_SIZE)]) = (Inr data, h')"
        using "1.prems"(2) True Next by (simp add: read_loop_unfold)
      from "1.IH"[OF True refl Next lh this] show ?thesis .
    next
      case Break
      with "1.prems" True show ?thesis by (auto simp: read_loop_unfold)
    next
      case (Raise e)
      with "1.prems" True show ?thesis by (auto simp: read_loop_unfold)
    qed
  qed
qed

text \<open>
  Claim C1, as amended. Let every answer of the transport to a request for a positive
  number \<open>n\<close> of bytes be at most \<open>n\<close> bytes long. Then for every session, endpoint, size
  and history, the bytes that \<open>read\<close> returns are at most \<open>max(size, 0)\<close> many, and so is the
  buffer at every head of the loop during the call.
\<close>

theorem read_length_bounded:
  assumes c: "\<forall>h d ep n data. 0 < n \<longrightarrow> dev_read env h d ep n = Inr data \<longrightarrow> int (length data) \<le> n"
  shows "(\<forall>data. fst (read env self endpoint sz h0) = Inr data \<longrightarrow> int (length data) \<le> max 0 sz) \<and>
         (\<forall>dv buffer remaining h. device self = Some dv \<longrightarrow>
            loop_head env dv endpoint sz h0 buffer remaining h \<longrightarrow> int (length buffer) \<le> max 0 sz)"
proof -
  have heads: "int (length buffer) \<le> max 0 sz"
    if "loop_head env dv endpoint sz h0 buffer remaining h" for dv buffer remaining h
    using loop_head_inv[OF c that] by auto
  have res: "int (length data) \<le> max 0 sz" if "fst (read env self endpoint sz h0) = Inr data" for data
  proof (cases "device self")
    case None
    with that show ?thesis by (simp add: read_def)
  next
    case (Some dv)
    with that obtain h' where "read_loop env dv endpoint [] sz h0 = (Inr data, h')"
      by (cases "read_loop env dv endpoint [] sz h0") (simp add: read_def)
    from read_loop_result_head[OF loop_head.start this] obtain r hh
      where "loop_head env dv endpoint sz h0 data r hh" by blast
    then show ?thesis by (rule heads)
  qed
  from heads res show ?thesis by blast
qed

text \<open>
  Claim C2. In a call of \<open>read\<close> on an open session, let the loop be at a head with buffer
  \<open>buffer\<close> and \<open>remaining > 0\<close>, and let the request for the next chunk time out. If the
  buffer is empty, the call raises \<open>USBTimeoutError\<close>; otherwise it returns the buffer. That
  request is the last one of the call.
\<close>

theorem read_timeout:
  assumes "device self = Some dv"
    and "loop_head env dv endpoint sz h0 buffer remaining h"
    and "remaining > 0"
    and "dev_read env h dv endpoint (min remaining BULK_TRANSFER_SIZE) = Inl USBTimeoutError"
  shows "read env self endpoint sz h0 =
           (if buffer = [] then Inl USBTimeoutError else Inr buffer,
            h @ [Dev_read dv endpoint (min remaining BULK_TRANSFER_SIZE)])"
proof -
  have "read_body env dv endpoint buffer remaining h = (if buffer = [] then Raise USBTimeoutError else Break)"
    using assms(4) by (simp add: read_body_def Let_def)
  then have "read_loop env dv endpoint buffer remaining h =
           (if buffer = [] then Inl USBTimeoutError else Inr buffer,
            h @ [Dev_read dv endpoint (min remaining BULK_TRANSFER_SIZE)])"
    using assms(3) by (simp add: read_loop_unfold)
  with loop_head_read_loop[OF assms(2)] assms(1) show ?thesis by (simp add: read_def)
qed

text \<open>
  Claim C3. In a call of \<open>read\<close> on an open session, let the loop be at a head with buffer
  \<open>buffer\<close> and \<open>remaining > 0\<close>, and let the transport answer the request for the next chunk
  with zero bytes. Then the call returns exactly \<open>buffer\<close> (a normal return, not an exception),
  and the history ends with that request: no further request is issued.
\<close>

theorem read_zero_length_chunk:
  assumes "device self = Some dv"
    and "loop_head env dv endpoint sz h0 buffer remaining h"
    and "remaining > 0"
    and "dev_read env h dv endpoint (min remaining BULK_TRANSFER_SIZE) = Inr []"
  shows "read env self endpoint sz h0 =
           (Inr buffer, h @ [Dev_read dv endpoint (min remaining BULK_TRANSFER_SIZE)])"
proof -
  have "read_body env dv endpoint buffer remaining h = Break"
    using assms(4) by (simp add: read_body_def Let_def)
  then have "read_loop env dv endpoint buffer remaining h =
           (Inr buffer, h @ [Dev_read dv endpoint (min remaining BULK_TRANSFER_SIZE)])"
    using assms(3) by (simp add: read_loop_unfold)
  with loop_head_read_loop[OF assms(2)] assms(1) show ?thesis by (simp add: read_def)
qed

text \<open>
  Claim C10. On an open session, for every endpoint, \<open>read\<close> with a size that is zero or
  negative returns the empty byte sequence and leaves the history as it was: no request
  reaches the device.
\<close>

theorem read_nonpositive_size:
  assumes "device self = Some dv" and "sz \<le> 0"
  shows "read env self endpoint sz h = (Inr [], h)"
  using assms by (simp add: read_def read_loop_done)

text \<open>The equations that evaluate \<open>read\<close> on a scripted environment.\<close>

lemmas read_eval = read_def read_loop_unfold read_loop_done read_body_def Let_def
  BULK_TRANSFER_SIZE_def scripted_read_def capped_read_def open0_def quiet_env_def ENDPOINT_COOKED_def

text \<open>
  An instance of C1: a transport that offers three bytes and then two, asked for four bytes.
\<close>

theorem read_length_bounded_witness:
  "fst (read (quiet_env\<lparr>dev_read := capped_read [Inr [1, 2, 3], Inr [4, 5]]\<rparr>) open0 ENDPOINT_COOKED 4 [])
     = Inr [1, 2, 3, 4] \<and>
   int (length [1, 2, 3, 4 :: byte]) \<le> max 0 4 \<and>
   loop_head (quiet_env\<lparr>dev_read := capped_read [Inr [1, 2, 3], Inr [4, 5]]\<rparr>) 0 ENDPOINT_COOKED 4 []
     [1, 2, 3] 1 [Dev_read 0 ENDPOINT_COOKED 4] \<and>
   int (length [1, 2, 3 :: byte]) \<le> max 0 4"
proof -
  let ?env = "quiet_env\<lparr>dev_read := capped_read [Inr [1, 2, 3], Inr [4, 5]]\<rparr>"
  have c: "\<forall>h d ep n data. 0 < n \<longrightarrow> dev_read ?env h d ep n = Inr data \<longrightarrow> int (length data) \<le> n"
    by (auto simp: capped_read_def split: sum.splits)
  have r: "fst (read ?env open0 ENDPOINT_COOKED 4 []) = Inr [1, 2, 3, 4]"
    by (simp add: read_eval)
  have l: "loop_head ?env 0 ENDPOINT_COOKED 4 [] [1, 2, 3] 1 [Dev_read 0 ENDPOINT_COOKED 4]"
    using loop_head.step[OF loop_head.start, of 4 ?env 0 ENDPOINT_COOKED "[]" "[1,2,3]" 1]
    by (simp add: read_eval)
  have d: "device open0 = Some 0" by (simp add: open0_def)
  from read_length_bounded[OF c, of open0 ENDPOINT_COOKED 4 "[]"] r l d
  show ?thesis by simp
qed

text \<open>
  C1 as stated fails at two inputs: for the requested size \<open>-1\<close> the result is empty, and its
  length 0 is not at most \<open>-1\<close>; and a transport that answers a request for one byte with two
  bytes makes \<open>read\<close> return two bytes for size 1, since \<open>read\<close> appends whatever it is given.
\<close>

theorem read_length_counterexample:
  "fst (read quiet_env open0 ENDPOINT_COOKED (- 1) []) = Inr [] \<and>
   \<not> int (length ([] :: byte list)) \<le> - 1 \<and>
   fst (read (quiet_env\<lparr>dev_read := scripted_read [Inr [1, 2]]\<rparr>) open0 ENDPOINT_COOKED 1 []) = Inr [1, 2] \<and>
   \<not> int (length [1, 2 :: byte]) \<le> 1"
  by (simp add: read_eval)

text \<open>
  Instances of C2: a timeout on the first request, and a timeout after two bytes.
\<close>

theorem read_timeout_witness:
  "read (quiet_env\<lparr>dev_read := scripted_read [Inl USBTimeoutError]\<rparr>) open0 ENDPOINT_COOKED 4 [] =
     (Inl USBTimeoutError, [Dev_read 0 ENDPOINT_COOKED 4]) \<and>
   read (quiet_env\<lparr>dev_read := scripted_read [Inr [1, 2], Inl USBTimeoutError]\<rparr>) open0 ENDPOINT_COOKED 4 [] =
     (Inr [1, 2], [Dev_read 0 ENDPOINT_COOKED 4, Dev_read 0 ENDPOINT_COOKED 2])"
proof -
  let ?e1 = "quiet_env\<lparr>dev_read := scripted_read [Inl USBTimeoutError]\<rparr>"
  let ?e2 = "quiet_env\<lparr>dev_read := scripted_read [Inr [1, 2], Inl USBTimeoutError]\<rparr>"
  have d: "device open0 = Some 0" by (simp add: open0_def)
  have l1: "loop_head ?e1 0 ENDPOINT_COOKED 4 [] [] 4 []" by (rule loop_head.start)
  have t1: "dev_read ?e1 [] 0 ENDPOINT_COOKED (min 4 BULK_TRANSFER_SIZE) = Inl USBTimeoutError"
    by (simp add: read_eval)
  have l2: "loop_head ?e2 0 ENDPOINT_COOKED 4 [] [1, 2] 2 [Dev_read 0 ENDPOINT_COOKED 4]"
    using loop_head.step[OF loop_head.start, of 4 ?e2 0 ENDPOINT_COOKED "[]" "[1, 2]" 2]
    by (simp add: read_eval)
  have t2: "dev_read ?e2 [Dev_read 0 ENDPOINT_COOKED 4] 0 ENDPOINT_COOKED (min 2 BULK_TRANSFER_SIZE)
              = Inl USBTimeoutError"
    by (simp add: read_eval)
  from read_timeout[OF d l1 _ t1] read_timeout[OF d l2 _ t2]
  show ?thesis by (simp add: BULK_TRANSFER_SIZE_def)
qed

text \<open>
  Instances of C3: zero bytes on the first request, and zero bytes after three bytes with more
  data scripted behind it.
\<close>

theorem read_zero_length_chunk_witness:
  "read quiet_env open0 ENDPOINT_RAW 4 [] = (Inr [], [Dev_read 0 ENDPOINT_RAW 4]) \<and>
   read (quiet_env\<lparr>dev_read := scripted_read [Inr [7, 8, 9], Inr [], Inr [1]]\<rparr>) open0 ENDPOINT_RAW 2000 [] =
     (Inr [7, 8, 9], [Dev_read 0 ENDPOINT_RAW 1024, Dev_read 0 ENDPOINT_RAW 1024])"
proof -
  let ?e2 = "quiet_env\<lparr>dev_read := scripted_read [Inr [7, 8, 9], Inr [], Inr [1]]\<rparr>"
  have d: "device open0 = Some 0" by (simp add: open0_def)
  have l1: "loop_head quiet_env 0 ENDPOINT_RAW 4 [] [] 4 []" by (rule loop_head.start)
  have t1: "dev_read quiet_env [] 0 ENDPOINT_RAW (min 4 BULK_TRANSFER_SIZE) = Inr []"
    by (simp add: read_eval)
  have l2: "loop_head ?e2 0 ENDPOINT_RAW 2000 [] [7, 8, 9] 1997 [Dev_read 0 ENDPOINT_RAW 1024]"
    using loop_head.step[OF loop_head.start, of 2000 ?e2 0 ENDPOINT_RAW "[]" "[7, 8, 9]" 1997]
    by (simp add: read_eval)
  have t2: "dev_read ?e2 [Dev_read 0 ENDPOINT_RAW 1024] 0 ENDPOINT_RAW (min 1997 BULK_TRANSFER_SIZE) = Inr []"
    by (simp add: read_eval)
  from read_zero_length_chunk[OF d l1 _ t1] read_zero_length_chunk[OF d l2 _ t2]
  show ?thesis by (simp add: BULK_TRANSFER_SIZE_def)
qed

text \<open>
  Instances of C10: sizes 0 and \<open>-5\<close>, with a transport that has data to give.
\<close>

theorem read_nonpositive_size_witness:
  "read (quiet_env\<lparr>dev_read := scripted_read [Inr [1, 2]]\<rparr>) open0 ENDPOINT_COOKED 0 [] = (Inr [], []) \<and>
   read (quiet_env\<lparr>dev_read := scripted_read [Inr [1, 2]]\<rparr>) open0 ENDPOINT_COOKED (- 5) [] = (Inr [], [])"
proof -
  have d: "device open0 = Some 0" by (simp add: open0_def)
  from read_nonpositive_size[OF d, of 0] read_nonpositive_size[OF d, of "- 5"]
  show ?thesis by simp
qed

section \<open>The device session\<close>

lemma swallow_USBError_caught:
  "(\<forall>e. r = Some e \<longrightarrow> is_USBError e) \<Longrightarrow> swallow_USBError r = None"
  by (cases r) (auto simp: swallow_USBError_def)

text \<open>
  Claim C4, as amended. Let every failure of the three cleanup steps (release of the
  interface, reattachment of the kernel driver, disposal of the resources) be a \<open>USBError\<close>.
  Then for every session state, opened or not, and every history, \<open>__exit__\<close> returns
  \<open>False\<close> without raising; the calls it makes are the release, the reattachment exactly when
  \<open>_kernel_was_active\<close> is set, and the disposal, whatever the earlier steps answered; and a
  second \<open>__exit__\<close> after the first returns \<open>False\<close> as well. The session object is not
  changed by \<open>__exit__\<close>.
\<close>

theorem exit_swallows_USBError:
  assumes rel: "\<forall>h d i e. release_interface env h d i = Some e \<longrightarrow> is_USBError e"
    and att: "\<forall>h d i e. attach_kernel_driver env h d i = Some e \<longrightarrow> is_USBError e"
    and dis: "\<forall>h d e. dispose_resources env h d = Some e \<longrightarrow> is_USBError e"
  shows "exit env self h =
           (Inr False,
            h @ (case device self of
                   None \<Rightarrow> []
                 | Some dv \<Rightarrow>
                     Release_interface dv (interface self) #
                     (if kernel_was_active self then [Attach_kernel_driver dv (interface self)] else []) @
                     [Dispose_resources dv])) \<and>
         fst (exit env self (snd (exit env self h))) = Inr False"
proof -
  have r: "swallow_USBError (release_interface env h' d i) = None" for h' d i
    using rel by (intro swallow_USBError_caught) blast
  have a: "swallow_USBError (attach_kernel_driver env h' d i) = None" for h' d i
    using att by (intro swallow_USBError_caught) blast
  have d: "swallow_USBError (dispose_resources env h' dv) = None" for h' dv
    using dis by (intro swallow_USBError_caught) blast
  have one: "exit env self h' =
           (Inr False,
            h' @ (case device self of
                   None \<Rightarrow> []
                 | Some dv \<Rightarrow>
                     Release_interface dv (interface self) #
                     (if kernel_was_active self then [Attach_kernel_driver dv (interface self)] else []) @
                     [Dispose_resources dv]))" for h'
    by (cases "device self") (simp_all add: exit_def Let_def r a d)
  show ?thesis by (simp add: one)
qed

text \<open>
  The equations that evaluate \<open>__enter__\<close> and \<open>__exit__\<close> on a scripted environment.
\<close>

lemmas session_eval = enter_def exit_def find_device_def detach_kernel_def serial_filter_def
  swallow_USBError_def init_def quiet_env_def with_ChaosKeyDevice_def Let_def

text \<open>
  Instances of C4: all three steps fail with a \<open>USBError\<close> on a session with a detached
  kernel driver, and a session that was never opened.
\<close>

theorem exit_swallows_USBError_witness:
  "exit (quiet_env\<lparr>release_interface := (\<lambda>h d i. Some (USBError 19)),
                    attach_kernel_driver := (\<lambda>h d i. Some (USBError 16)),
                    dispose_resources := (\<lambda>h d. Some USBTimeoutError)\<rparr>)
        (open0\<lparr>kernel_was_active := True\<rparr>) [] =
     (Inr False, [Release_interface 0 0, Attach_kernel_driver 0 0, Dispose_resources 0]) \<and>
   exit (quiet_env\<lparr>release_interface := (\<lambda>h d i. Some (USBError 19)),
                    attach_kernel_driver := (\<lambda>h d i. Some (USBError 16)),
                    dispose_resources := (\<lambda>h d. Some USBTimeoutError)\<rparr>)
        (init None) [] = (Inr False, [])"
proof -
  let ?env = "quiet_env\<lparr>release_interface := (\<lambda>h d i. Some (USBError 19)),
                    attach_kernel_driver := (\<lambda>h d i. Some (USBError 16)),
                    dispose_resources := (\<lambda>h d. Some USBTimeoutError)\<rparr>"
  have rel: "\<forall>h d i e. release_interface ?env h d i = Some e \<longrightarrow> is_USBError e" by simp
  have att: "\<forall>h d i e. attach_kernel_driver ?env h d i = Some e \<longrightarrow> is_USBError e" by simp
  have dis: "\<forall>h d e. dispose_resources ?env h d = Some e \<longrightarrow> is_USBError e" by simp
  from exit_swallows_USBError[OF rel att dis, of "open0\<lparr>kernel_was_active := True\<rparr>" "[]"]
       exit_swallows_USBError[OF rel att dis, of "init None" "[]"]
  show ?thesis by (simp add: open0_def init_def)
qed

text \<open>
  C4 as stated fails: with a kernel driver that was detached on open, a reattachment that
  raises \<open>NotImplementedError\<close> is not caught by \<open>except usb.core.USBError\<close>; \<open>__exit__\<close>
  raises it and the disposal is not attempted.
\<close>

theorem exit_raises_counterexample:
  "enter (quiet_env\<lparr>is_kernel_driver_active := (\<lambda>h d i. Inr True),
                     attach_kernel_driver := (\<lambda>h d i. Some NotImplementedError)\<rparr>) (init None) [] =
     (None, open0\<lparr>kernel_was_active := True\<rparr>,
      [Find, Is_kernel_driver_active 0 0, Detach_kernel_driver 0 0, Claim_interface 0 0]) \<and>
   exit (quiet_env\<lparr>is_kernel_driver_active := (\<lambda>h d i. Inr True),
                    attach_kernel_driver := (\<lambda>h d i. Some NotImplementedError)\<rparr>)
        (open0\<lparr>kernel_was_active := True\<rparr>)
        [Find, Is_kernel_driver_active 0 0, Detach_kernel_driver 0 0, Claim_interface 0 0] =
     (Inl NotImplementedError,
      [Find, Is_kernel_driver_active 0 0, Detach_kernel_driver 0 0, Claim_interface 0 0,
       Release_interface 0 0, Attach_kernel_driver 0 0])"
  by (simp add: session_eval open0_def)

text \<open>
  Claim C5 at a failing input. One device is attached, its kernel driver is active and
  detaches, and the interface claim raises \<open>USBError\<close> with errno 16 (busy). The \<open>with\<close>
  statement fails with that error, and the calls made are the enumeration, the driver query,
  the detach and the claim: no reattachment follows, because \<open>__exit__\<close> does not run when
  \<open>__enter__\<close> raises and \<open>__enter__\<close> has no cleanup of its own.
\<close>

theorem failed_claim_leaves_driver_detached:
  "with_ChaosKeyDevice
     (quiet_env\<lparr>is_kernel_driver_active := (\<lambda>h d i. Inr True),
                claim_interface := (\<lambda>h d i. Some (USBError 16))\<rparr>)
     None
     (\<lambda>self h. read (quiet_env\<lparr>is_kernel_driver_active := (\<lambda>h d i. Inr True),
                                claim_interface := (\<lambda>h d i. Some (USBError 16))\<rparr>)
                   self ENDPOINT_COOKED 1024 h)
     [] =
   (Inl (USBError 16),
    [Find, Is_kernel_driver_active 0 0, Detach_kernel_driver 0 0, Claim_interface 0 0])"
  by (simp add: session_eval)

lemma scan_serial_found:
  assumes c: "\<forall>h' dv e. get_string env h' dv = Inl e \<longrightarrow> is_USBError e \<or> e = ValueError"
  shows "k < length devices \<Longrightarrow>
     get_string env (h @ map Get_string (take k devices)) (devices ! k) = Inr (Some s) \<Longrightarrow>
     (\<forall>j<k. get_string env (h @ map Get_string (take j devices)) (devices ! j) \<noteq> Inr (Some s)) \<Longrightarrow>
     scan_serial env s devices h = (Inr (Some (devices ! k)), h @ map Get_string (take (Suc k) devices))"
proof (induction devices arbitrary: h k)
  case Nil
  then show ?case by simp
next
  case (Cons dv devices)
  show ?case
  proof (cases k)
    case 0
    with Cons.prems(2) show ?thesis by (simp add: Let_def)
  next
    case (Suc k')
    from Cons.prems(3) Suc have ne: "get_string env h dv \<noteq> Inr (Some s)"
      by (auto dest: spec[where x=0])
    have skip: "scan_serial env s (dv # devices) h = scan_serial env s devices (h @ [Get_string dv])"
    proof (cases "get_string env h dv")
      case (Inl e)
      with c have "is_USBError e \<or> e = ValueError" by blast
      with Inl show ?thesis by (auto simp: Let_def)
    next
      case (Inr v)
      with ne show ?thesis by (simp add: Let_def)
    qed
    have k': "k' < length devices" using Cons.prems(1) Suc by simp
    have m: "get_string env ((h @ [Get_string dv]) @ map Get_string (take k' devices)) (devices ! k') = Inr (Some s)"
      using Cons.prems(2) Suc by simp
    have n: "\<forall>j<k'. get_string env ((h @ [Get_string dv]) @ map Get_string (take j devices)) (devices ! j) \<noteq> Inr (Some s)"
    proof (intro allI impI)
      fix j assume "j < k'"
      then have "Suc j < k" using Suc by simp
      with Cons.prems(3) have "get_string env (h @ map Get_string (take (Suc j) (dv # devices))) ((dv # devices) ! Suc j) \<noteq> Inr (Some s)"
        by blast
      then show "get_string env ((h @ [Get_string dv]) @ map Get_string (take j devices)) (devices ! j) \<noteq> Inr (Some s)"
        by simp
    qed
    from Cons.IH[OF k' m n] skip Suc show ?thesis by simp
  qed
qed

lemma scan_serial_none:
  assumes c: "\<forall>h' dv e. get_string env h' dv = Inl e \<longrightarrow> is_USBError e \<or> e = ValueError"
  shows "(\<forall>j<length devices. get_string env (h @ map Get_string (take j devices)) (devices ! j) \<noteq> Inr (Some s)) \<Longrightarrow>
     scan_serial env s devices h = (Inr None, h @ map Get_string devices)"
proof (induction devices arbitrary: h)
  case Nil
  then show ?case by simp
next
  case (Cons dv devices)
  from Cons.prems have ne: "get_string env h dv \<noteq> Inr (Some s)"
    by (auto dest: spec[where x=0])
  have skip: "scan_serial env s (dv # devices) h = scan_serial env s devices (h @ [Get_string dv])"
  proof (cases "get_string env h dv")
    case (Inl e)
    with c have "is_USBError e \<or> e = ValueError" by blast
    with Inl show ?thesis by (auto simp: Let_def)
  next
    case (Inr v)
    with ne show ?thesis by (simp add: Let_def)
  qed
  have n: "\<forall>j<length devices. get_string env ((h @ [Get_string dv]) @ map Get_string (take j devices)) (devices ! j) \<noteq> Inr (Some s)"
  proof (intro allI impI)
    fix j assume "j < length devices"
    then have "Suc j < length (dv # devices)" by simp
    with Cons.prems have "get_string env (h @ map Get_string (take (Suc j) (dv # devices))) ((dv # devices) ! Suc j) \<noteq> Inr (Some s)"
      by blast
    then show "get_string env ((h @ [Get_string dv]) @ map Get_string (take j devices)) (devices ! j) \<noteq> Inr (Some s)"
      by simp
  qed
  from Cons.IH[OF n] skip show ?case by simp
qed

lemma detach_kernel_device:
  "detach_kernel env self dv h = (r, self', h') \<Longrightarrow> device self' = device self"
  by (auto simp: detach_kernel_def Let_def split: sum.splits if_splits option.splits)

lemma enter_device:
  assumes "find_device env self h = (None, self1, h1)" and "device self1 = Some dv"
  shows "device (fst (snd (enter env self h))) = Some dv"
proof (cases "detach_kernel env self1 dv h1")
  case (fields r self2 h2)
  from detach_kernel_device[OF fields] assms(2) have "device self2 = Some dv" by simp
  with assms fields show ?thesis by (cases r) (simp_all add: enter_def)
qed

text \<open>
  Claim C6, as amended. Let the enumeration return the candidates \<open>devices\<close>, and let every
  failure of a descriptor read be a \<open>USBError\<close> or a \<open>ValueError\<close>. For a fresh session:
  with a non-empty serial filter \<open>s\<close>, if candidate \<open>k\<close> is the first whose serial string
  reads as \<open>s\<close> (each candidate read once, in order), it is the device selected, and the
  candidates after it are not read; if no candidate's serial string reads as \<open>s\<close>, open raises
  \<open>RuntimeError\<close> "No ChaosKey device found" after the enumeration and the descriptor reads
  alone. With no filter, or the empty string as filter, the first candidate is selected
  without any descriptor read; with no candidate, open raises the same error after the
  enumeration alone. In neither failure is there a \<open>Claim_interface\<close> call.
\<close>

theorem open_selects_device:
  assumes en: "enumerate env h = Inr devices"
    and c: "\<forall>h' dv e. get_string env h' dv = Inl e \<longrightarrow> is_USBError e \<or> e = ValueError"
  shows
   "(\<forall>s k. serial_filter sf = Some s \<longrightarrow> k < length devices \<longrightarrow>
        get_string env (h @ Find # map Get_string (take k devices)) (devices ! k) = Inr (Some s) \<longrightarrow>
        (\<forall>j<k. get_string env (h @ Find # map Get_string (take j devices)) (devices ! j) \<noteq> Inr (Some s)) \<longrightarrow>
        find_device env (init sf) h =
          (None, (init sf)\<lparr>device := Some (devices ! k)\<rparr>,
           h @ Find # map Get_string (take (Suc k) devices)) \<and>
        device (fst (snd (enter env (init sf) h))) = Some (devices ! k)) \<and>
    (\<forall>s. serial_filter sf = Some s \<longrightarrow>
        (\<forall>j<length devices.
            get_string env (h @ Find # map Get_string (take j devices)) (devices ! j) \<noteq> Inr (Some s)) \<longrightarrow>
        enter env (init sf) h =
          (Some (RuntimeError ''No ChaosKey device found''), init sf,
           h @ Find # map Get_string devices)) \<and>
    (\<forall>dv rest. serial_filter sf = None \<longrightarrow> devices = dv # rest \<longrightarrow>
        find_device env (init sf) h = (None, (init sf)\<lparr>device := Some dv\<rparr>, h @ [Find]) \<and>
        device (fst (snd (enter env (init sf) h))) = Some dv) \<and>
    (serial_filter sf = None \<longrightarrow> devices = [] \<longrightarrow>
        enter env (init sf) h =
          (Some (RuntimeError ''No ChaosKey device found''), init sf, h @ [Find]))"
proof (intro conjI allI impI)
  fix s k
  assume f: "serial_filter sf = Some s" and k: "k < length devices"
    and m: "get_string env (h @ Find # map Get_string (take k devices)) (devices ! k) = Inr (Some s)"
    and n: "\<forall>j<k. get_string env (h @ Find # map Get_string (take j devices)) (devices ! j) \<noteq> Inr (Some s)"
  from scan_serial_found[OF c k, of "h @ [Find]" s] m n
  have "scan_serial env s devices (h @ [Find]) =
          (Inr (Some (devices ! k)), (h @ [Find]) @ map Get_string (take (Suc k) devices))"
    by simp
  with en f show fd: "find_device env (init sf) h =
          (None, (init sf)\<lparr>device := Some (devices ! k)\<rparr>,
           h @ Find # map Get_string (take (Suc k) devices))"
    by (simp add: find_device_def Let_def init_def)
  show "device (fst (snd (enter env (init sf) h))) = Some (devices ! k)"
    by (rule enter_device[OF fd]) simp
next
  fix s
  assume f: "serial_filter sf = Some s"
    and n: "\<forall>j<length devices.
            get_string env (h @ Find # map Get_string (take j devices)) (devices ! j) \<noteq> Inr (Some s)"
  from scan_serial_none[OF c, of devices "h @ [Find]" s] n
  have "scan_serial env s devices (h @ [Find]) = (Inr None, (h @ [Find]) @ map Get_string devices)"
    by simp
  with en f show "enter env (init sf) h =
          (Some (RuntimeError ''No ChaosKey device found''), init sf,
           h @ Find # map Get_string devices)"
    by (simp add: enter_def find_device_def Let_def init_def)
next
  fix dv rest
  assume f: "serial_filter sf = None" and d: "devices = dv # rest"
  with en show fd: "find_device env (init sf) h = (None, (init sf)\<lparr>device := Some dv\<rparr>, h @ [Find])"
    by (simp add: find_device_def Let_def init_def)
  show "device (fst (snd (enter env (init sf) h))) = Some dv"
    by (rule enter_device[OF fd]) simp
next
  assume f: "serial_filter sf = None" and d: "devices = []"
  with en show "enter env (init sf) h =
          (Some (RuntimeError ''No ChaosKey device found''), init sf, h @ [Find])"
    by (simp add: enter_def find_device_def Let_def init_def)
qed

text \<open>
  Instances of C6 with three candidates, the first with an unreadable descriptor: a filter
  that the third matches, a filter that none matches, no filter, and no candidate at all.
\<close>

theorem open_selects_device_witness:
  "find_device three_devices (init (Some ''BBB'')) [] =
     (None, (init (Some ''BBB''))\<lparr>device := Some 2\<rparr>, [Find, Get_string 0, Get_string 1, Get_string 2]) \<and>
   enter three_devices (init (Some ''ZZZ'')) [] =
     (Some (RuntimeError ''No ChaosKey device found''), init (Some ''ZZZ''),
      [Find, Get_string 0, Get_string 1, Get_string 2]) \<and>
   find_device three_devices (init None) [] = (None, (init None)\<lparr>device := Some 0\<rparr>, [Find]) \<and>
   enter (quiet_env\<lparr>enumerate := (\<lambda>h. Inr [])\<rparr>) (init None) [] =
     (Some (RuntimeError ''No ChaosKey device found''), init None, [Find])"
proof -
  have en: "enumerate three_devices [] = Inr [0, 1, 2]"
    by (simp add: three_devices_def)
  have c: "\<forall>h' dv e. get_string three_devices h' dv = Inl e \<longrightarrow> is_USBError e \<or> e = ValueError"
    by (simp add: three_devices_def)
  have en0: "enumerate (quiet_env\<lparr>enumerate := (\<lambda>h. Inr [])\<rparr>) [] = Inr []" by simp
  have c0: "\<forall>h' dv e. get_string (quiet_env\<lparr>enumerate := (\<lambda>h. Inr [])\<rparr>) h' dv = Inl e \<longrightarrow>
              is_USBError e \<or> e = ValueError"
    by (simp add: quiet_env_def)
  have lt3: "j < 3 \<longleftrightarrow> j = 0 \<or> j = 1 \<or> j = 2" for j :: nat by auto
  have lt2: "j < 2 \<longleftrightarrow> j = 0 \<or> j = 1" for j :: nat by auto
  have a: "find_device three_devices (init (Some ''BBB'')) [] =
     (None, (init (Some ''BBB''))\<lparr>device := Some ([0, 1, 2] ! 2)\<rparr>,
      [] @ Find # map Get_string (take (Suc 2) [0, 1, 2]))"
  proof (rule open_selects_device[OF en c, of "Some ''BBB''", THEN conjunct1, rule_format, THEN conjunct1])
    show "serial_filter (Some ''BBB'') = Some ''BBB''" by (simp add: serial_filter_def)
    show "(2::nat) < length [0, 1, 2 :: nat]" by simp
    show "get_string three_devices ([] @ Find # map Get_string (take 2 [0, 1, 2])) ([0, 1, 2] ! 2)
            = Inr (Some ''BBB'')"
      by (simp add: three_devices_def)
    show "get_string three_devices ([] @ Find # map Get_string (take j [0, 1, 2])) ([0, 1, 2] ! j)
            \<noteq> Inr (Some ''BBB'')" if "j < 2" for j
      using that by (auto simp: three_devices_def lt2)
  qed
  have b: "enter three_devices (init (Some ''ZZZ'')) [] =
     (Some (RuntimeError ''No ChaosKey device found''), init (Some ''ZZZ''),
      [] @ Find # map Get_string [0, 1, 2])"
  proof (rule open_selects_device[OF en c, of "Some ''ZZZ''", THEN conjunct2, THEN conjunct1, rule_format])
    show "serial_filter (Some ''ZZZ'') = Some ''ZZZ''" by (simp add: serial_filter_def)
    show "get_string three_devices ([] @ Find # map Get_string (take j [0, 1, 2])) ([0, 1, 2] ! j)
            \<noteq> Inr (Some ''ZZZ'')" if "j < length [0, 1, 2 :: nat]" for j
      using that by (auto simp: three_devices_def lt3)
  qed
  have d: "find_device three_devices (init None) [] = (None, (init None)\<lparr>device := Some 0\<rparr>, [Find])"
    using open_selects_device[OF en c, of None,
            THEN conjunct2, THEN conjunct2, THEN conjunct1, rule_format, of 0 "[1, 2]", THEN conjunct1]
    by (simp add: serial_filter_def)
  have e: "enter (quiet_env\<lparr>enumerate := (\<lambda>h. Inr [])\<rparr>) (init None) [] =
     (Some (RuntimeError ''No ChaosKey device found''), init None, [Find])"
    using open_selects_device[OF en0 c0, of None,
            THEN conjunct2, THEN conjunct2, THEN conjunct2]
    by (simp add: serial_filter_def)
  from a b d e show ?thesis by (simp add: eval_nat_numeral)
qed

text \<open>
  C6 as stated fails at two inputs. With the empty string as serial filter, \<open>if self._serial\<close>
  is false and the first device is selected and claimed although its serial string is not the
  filter. With a descriptor read that raises \<open>NotImplementedError\<close>, the exception is not
  caught and leaves \<open>__enter__\<close>.
\<close>

theorem open_selects_device_counterexample:
  "find_device (quiet_env\<lparr>get_string := (\<lambda>h d. Inr (Some ''ABC''))\<rparr>) (init (Some [])) [] =
     (None, (init (Some []))\<lparr>device := Some 0\<rparr>, [Find]) \<and>
   enter (quiet_env\<lparr>get_string := (\<lambda>h d. Inr (Some ''ABC''))\<rparr>) (init (Some [])) [] =
     (None, (init (Some []))\<lparr>device := Some 0\<rparr>,
      [Find, Is_kernel_driver_active 0 0, Claim_interface 0 0]) \<and>
   enter (quiet_env\<lparr>get_string := (\<lambda>h d. Inl NotImplementedError)\<rparr>) (init (Some ''ABC'')) [] =
     (Some NotImplementedError, init (Some ''ABC''), [Find, Get_string 0])"
  by (simp add: session_eval)

section \<open>The capture loop\<close>

lemma transfer_rate_total: "\<exists>r. transfer_rate n elapsed = Inr r"
  by (simp add: transfer_rate_def py_truediv_def)

lemma capture_loop_done:
  "\<not> i < num_loops \<Longrightarrow>
   capture_loop rd clock endpoint num_loops block_size i total_bytes st = (Inr total_bytes, st)"
  by (subst capture_loop.simps) simp

lemma capture_loop_no_data:
  assumes "i < num_loops" and "rd endpoint block_size (world st) = (Inr [], w)"
  shows "capture_loop rd clock endpoint num_loops block_size i total_bytes st =
           (Inr total_bytes,
            st\<lparr>world := w, ticks := ticks st + 2, console := console st @ [No_data (i + 1)]\<rparr>)"
  using assms by (subst capture_loop.simps) (simp add: Let_def)

lemma capture_loop_block:
  assumes "i < num_loops" and "0 \<le> i"
    and "rd endpoint block_size (world st) = (Inr data, w)" and "data \<noteq> []"
  shows "\<exists>p r. capture_loop rd clock endpoint num_loops block_size i total_bytes st =
           capture_loop rd clock endpoint num_loops block_size (i + 1)
             (total_bytes + int (length data))
             (st\<lparr>world := w, ticks := ticks st + 2, sink := sink st @ data,
                 console := console st @ [Progress (i + 1) num_loops p r]\<rparr>)"
proof -
  obtain r where r: "transfer_rate (length data) (clock (Suc (ticks st)) - clock (ticks st)) = Inr r"
    using transfer_rate_total by blast
  have nz: "(of_int num_loops :: real) \<noteq> 0" using assms(1,2) by simp
  have "capture_loop rd clock endpoint num_loops block_size i total_bytes st =
           capture_loop rd clock endpoint num_loops block_size (i + 1)
             (total_bytes + int (length data))
             (st\<lparr>world := w, ticks := ticks st + 2, sink := sink st @ data,
                 console := console st @
                   [Progress (i + 1) num_loops (of_int ((i + 1) * 100) / of_int num_loops) r]\<rparr>)"
    using assms r nz
    by (subst capture_loop.simps) (simp add: Let_def py_truediv_def)
  then show ?thesis by blast
qed

lemma capture_loop_all:
  "0 \<le> i \<Longrightarrow> i + int (length blocks) = num_loops \<Longrightarrow>
   responses rd endpoint block_size (length blocks) (world st) = map Inr blocks \<Longrightarrow>
   \<forall>b\<in>set blocks. b \<noteq> [] \<Longrightarrow>
   \<exists>st' ps. capture_loop rd clock endpoint num_loops block_size i total_bytes st =
            (Inr (total_bytes + (\<Sum>b\<leftarrow>blocks. int (length b))), st') \<and>
          sink st' = sink st @ concat blocks \<and>
          console st' = console st @ ps \<and> length ps = length blocks \<and>
          (\<forall>k<length ps. \<exists>p r. ps ! k = Progress (i + int k + 1) num_loops p r)"
proof (induction blocks arbitrary: i total_bytes st)
  case Nil
  then show ?case by (simp add: capture_loop_done)
next
  case (Cons b blocks)
  obtain r w where rd: "rd endpoint block_size (world st) = (r, w)"
    by (cases "rd endpoint block_size (world st)")
  with Cons.prems(3) have r: "r = Inr b"
    and rest: "responses rd endpoint block_size (length blocks) w = map Inr blocks"
    by simp_all
  have lt: "i < num_loops" using Cons.prems(2) by simp
  have ne: "b \<noteq> []" using Cons.prems(4) by simp
  from capture_loop_block[where rd=rd and endpoint=endpoint and block_size=block_size and st=st
         and clock=clock and total_bytes=total_bytes, OF lt Cons.prems(1) rd[unfolded r] ne]
  obtain p q where step:
    "capture_loop rd clock endpoint num_loops block_size i total_bytes st =
       capture_loop rd clock endpoint num_loops block_size (i + 1)
         (total_bytes + int (length b))
         (st\<lparr>world := w, ticks := ticks st + 2, sink := sink st @ b,
             console := console st @ [Progress (i + 1) num_loops p q]\<rparr>)"
    by blast
  let ?st = "st\<lparr>world := w, ticks := ticks st + 2, sink := sink st @ b,
             console := console st @ [Progress (i + 1) num_loops p q]\<rparr>"
  have "0 \<le> i + 1" using Cons.prems(1) by simp
  moreover have "i + 1 + int (length blocks) = num_loops" using Cons.prems(2) by simp
  moreover have "responses rd endpoint block_size (length blocks) (world ?st) = map Inr blocks"
    using rest by simp
  moreover have "\<forall>x\<in>set blocks. x \<noteq> []" using Cons.prems(4) by simp
  ultimately obtain st' ps where
    run: "capture_loop rd clock endpoint num_loops block_size (i + 1) (total_bytes + int (length b)) ?st =
            (Inr (total_bytes + int (length b) + (\<Sum>x\<leftarrow>blocks. int (length x))), st')"
    and sk: "sink st' = sink ?st @ concat blocks"
    and co: "console st' = console ?st @ ps" and len: "length ps = length blocks"
    and pr: "\<forall>k<length ps. \<exists>p r. ps ! k = Progress (i + 1 + int k + 1) num_loops p r"
    using Cons.IH[of "i + 1" ?st "total_bytes + int (length b)"] by blast
  have all: "\<forall>k<length (Progress (i + 1) num_loops p q # ps).
               \<exists>p' r'. (Progress (i + 1) num_loops p q # ps) ! k = Progress (i + int k + 1) num_loops p' r'"
  proof (intro allI impI)
    fix k assume k: "k < length (Progress (i + 1) num_loops p q # ps)"
    show "\<exists>p' r'. (Progress (i + 1) num_loops p q # ps) ! k = Progress (i + int k + 1) num_loops p' r'"
    proof (cases k)
      case 0
      then show ?thesis by simp
    next
      case (Suc k')
      with k have "k' < length ps" by simp
      with pr obtain p' r' where "ps ! k' = Progress (i + 1 + int k' + 1) num_loops p' r'" by blast
      with Suc show ?thesis by (simp add: add.commute add.left_commute)
    qed
  qed
  show ?case
    apply (rule exI[of _ st'])
    apply (rule exI[of _ "Progress (i + 1) num_loops p q # ps"])
    using step run sk co len all by (simp add: add.assoc)
qed

lemma capture_data_fst_snd:
  "capture_loop rd clock endpoint num_loops block_size 0 0 st = (Inr t, st') \<Longrightarrow>
   capture_data rd clock endpoint num_loops block_size st =
     (Inr t, st'\<lparr>console := console st' @ [Newline]\<rparr>)"
  by (simp add: capture_data_def)

text \<open>
  Claim C8, as amended. Let \<open>num_loops\<close> be non-negative, and let the \<open>num_loops\<close> calls of
  \<open>device.read\<close> return the blocks \<open>blocks\<close>, each non-empty, with no exception. Then
  \<open>capture_data\<close> returns the sum of the lengths of the blocks, the sink receives the blocks in
  order, and the console shows one progress line for each block from 1 to \<open>num_loops\<close> and no
  early-termination message. When every block has \<open>block_size\<close> bytes the total is
  \<open>num_loops * block_size\<close>; a shorter block counts with the length it has.
\<close>

theorem capture_all_blocks:
  assumes "0 \<le> num_loops"
    and "responses rd endpoint block_size (nat num_loops) (world st) = map Inr blocks"
    and "\<forall>b\<in>set blocks. b \<noteq> []"
  shows "fst (capture_data rd clock endpoint num_loops block_size st) =
           Inr (\<Sum>b\<leftarrow>blocks. int (length b)) \<and>
         sink (snd (capture_data rd clock endpoint num_loops block_size st)) =
           sink st @ concat blocks \<and>
         (\<exists>ps. console (snd (capture_data rd clock endpoint num_loops block_size st)) =
                 console st @ ps @ [Newline] \<and>
               int (length ps) = num_loops \<and>
               (\<forall>k<length ps. \<exists>p r. ps ! k = Progress (int k + 1) num_loops p r)) \<and>
         ((\<forall>b\<in>set blocks. int (length b) = block_size) \<longrightarrow>
            fst (capture_data rd clock endpoint num_loops block_size st) =
              Inr (num_loops * block_size))"
proof -
  have "length (responses rd endpoint block_size n w) = n" for n w
    by (induction n arbitrary: w) (auto split: prod.splits)
  from this[of "nat num_loops" "world st"] assms(2) have len: "length blocks = nat num_loops"
    by simp
  with assms(1) have n: "0 + int (length blocks) = num_loops" by simp
  from assms(2) len have rs: "responses rd endpoint block_size (length blocks) (world st) = map Inr blocks"
    by simp
  from capture_loop_all[where rd=rd and endpoint=endpoint and block_size=block_size and st=st
         and clock=clock and total_bytes=0, OF _ n rs assms(3)]
  obtain st' ps where
    run: "capture_loop rd clock endpoint num_loops block_size 0 0 st =
            (Inr (\<Sum>b\<leftarrow>blocks. int (length b)), st')"
    and sk: "sink st' = sink st @ concat blocks"
    and co: "console st' = console st @ ps" and lp: "length ps = length blocks"
    and pr: "\<forall>k<length ps. \<exists>p r. ps ! k = Progress (0 + int k + 1) num_loops p r"
    by auto
  note cd = capture_data_fst_snd[OF run]
  have full: "(\<Sum>b\<leftarrow>blocks. int (length b)) = num_loops * block_size"
    if "\<forall>b\<in>set blocks. int (length b) = block_size"
  proof -
    have "(\<Sum>b\<leftarrow>bs. int (length b)) = int (length bs) * block_size"
      if "\<forall>b\<in>set bs. int (length b) = block_size" for bs
      using that by (induction bs) (auto simp: algebra_simps)
    from this[OF that] n show ?thesis by simp
  qed
  have c: "\<exists>ps. console (snd (capture_data rd clock endpoint num_loops block_size st)) =
                 console st @ ps @ [Newline] \<and>
               int (length ps) = num_loops \<and>
               (\<forall>k<length ps. \<exists>p r. ps ! k = Progress (int k + 1) num_loops p r)"
    apply (rule exI[of _ ps])
    using cd co lp n pr by simp
  show ?thesis using cd sk c full by simp
qed

lemma length_mib_block: "length mib_block = 1048576"
  by (simp add: mib_block_def)

lemma mib_block_not_Nil: "mib_block \<noteq> []"
  using length_mib_block by fastforce

text \<open>
  Instances of C8: five blocks of one MiB give 5242880 bytes; a full block of four bytes
  followed by a short block of one byte gives five bytes.
\<close>

theorem capture_all_blocks_witness:
  "fst (capture_data script_rd of_nat ENDPOINT_COOKED 5 1048576
          \<lparr>world = [Inr mib_block, Inr mib_block, Inr mib_block, Inr mib_block, Inr mib_block],
           ticks = 0, sink = [], console = []\<rparr>) = Inr 5242880 \<and>
   sink (snd (capture_data script_rd of_nat ENDPOINT_COOKED 5 1048576
          \<lparr>world = [Inr mib_block, Inr mib_block, Inr mib_block, Inr mib_block, Inr mib_block],
           ticks = 0, sink = [], console = []\<rparr>)) =
     mib_block @ mib_block @ mib_block @ mib_block @ mib_block \<and>
   fst (capture_data script_rd of_nat ENDPOINT_RAW 2 4
          \<lparr>world = [Inr [1, 2, 3, 4], Inr [5]], ticks = 0, sink = [9], console = []\<rparr>) = Inr 5 \<and>
   sink (snd (capture_data script_rd of_nat ENDPOINT_RAW 2 4
          \<lparr>world = [Inr [1, 2, 3, 4], Inr [5]], ticks = 0, sink = [9], console = []\<rparr>)) =
     [9, 1, 2, 3, 4, 5]"
proof -
  let ?st = "\<lparr>world = [Inr mib_block, Inr mib_block, Inr mib_block, Inr mib_block, Inr mib_block],
           ticks = 0, sink = [] :: byte list, console = []\<rparr>"
  let ?bs = "[mib_block, mib_block, mib_block, mib_block, mib_block]"
  have a: "(0::int) \<le> 5" by simp
  have b: "responses script_rd ENDPOINT_COOKED 1048576 (nat 5) (world ?st) = map Inr ?bs"
    by (simp add: eval_nat_numeral)
  have c: "\<forall>b\<in>set ?bs. b \<noteq> []" by (simp add: mib_block_not_Nil)
  have f: "\<forall>b\<in>set ?bs. int (length b) = 1048576" by (simp add: length_mib_block)
  let ?st2 = "\<lparr>world = [Inr [1, 2, 3, 4], Inr [5]], ticks = 0, sink = [9 :: byte], console = []\<rparr>"
  have a2: "(0::int) \<le> 2" by simp
  have b2: "responses script_rd ENDPOINT_RAW 4 (nat 2) (world ?st2) = map Inr [[1, 2, 3, 4], [5]]"
    by (simp add: eval_nat_numeral)
  have c2: "\<forall>b\<in>set [[1, 2, 3, 4], [5 :: byte]]. b \<noteq> []" by simp
  from capture_all_blocks[OF a b c, of of_nat] f
       capture_all_blocks[OF a2 b2 c2, of of_nat]
  show ?thesis by simp
qed

text \<open>
  C8 as stated fails at two inputs. For \<open>num_loops = -1\<close> and \<open>block_size = 1\<close> no read is made and
  the total is 0, not \<open>-1 * 1\<close>. For \<open>block_size = 0\<close> and \<open>num_loops = 1\<close>, the read returns a full
  block of zero bytes and the loop stops at block 1 with the no-data message instead of
  completing the block.
\<close>

theorem capture_all_blocks_counterexample:
  "fst (capture_data script_rd of_nat ENDPOINT_COOKED (- 1) 1
          \<lparr>world = [Inr [7]], ticks = 0, sink = [], console = []\<rparr>) = Inr 0 \<and>
   (0::int) \<noteq> (- 1) * 1 \<and>
   script_rd ENDPOINT_COOKED 0 [Inr []] = (Inr [], []) \<and>
   capture_data script_rd of_nat ENDPOINT_COOKED 1 0
          \<lparr>world = [Inr []], ticks = 0, sink = [], console = []\<rparr> =
     (Inr 0, \<lparr>world = [], ticks = 2, sink = [], console = [No_data 1, Newline]\<rparr>)"
  by (simp add: capture_data_def capture_loop_done
        capture_loop_no_data[where w="[]"])

text \<open>
  Claim C7. With \<open>block_size\<close> 1 MiB and \<open>num_loops = 3\<close>, let the three calls of
  \<open>device.read\<close> return one MiB, one MiB and zero bytes. Then \<open>capture_data\<close> returns 2097152,
  the sink receives exactly the two blocks in order, and the console shows the progress lines
  of blocks 1 and 2, then the no-data message for block 3, then the final newline.
\<close>

theorem capture_stops_at_empty_block:
  assumes "responses rd endpoint 1048576 3 (world st) = [Inr b1, Inr b2, Inr []]"
    and "length b1 = 1048576" and "length b2 = 1048576"
  shows "fst (capture_data rd clock endpoint 3 1048576 st) = Inr 2097152 \<and>
         sink (snd (capture_data rd clock endpoint 3 1048576 st)) = sink st @ b1 @ b2 \<and>
         (\<exists>p1 r1 p2 r2.
            console (snd (capture_data rd clock endpoint 3 1048576 st)) =
              console st @ [Progress 1 3 p1 r1, Progress 2 3 p2 r2, No_data 3, Newline])"
proof -
  obtain w1 where r1: "rd endpoint 1048576 (world st) = (Inr b1, w1)"
    using assms(1) by (cases "rd endpoint 1048576 (world st)") (simp add: eval_nat_numeral)
  obtain w2 where r2: "rd endpoint 1048576 w1 = (Inr b2, w2)"
    using assms(1) r1 by (cases "rd endpoint 1048576 w1") (simp add: eval_nat_numeral)
  obtain w3 where r3: "rd endpoint 1048576 w2 = (Inr [], w3)"
    using assms(1) r1 r2 by (cases "rd endpoint 1048576 w2") (simp add: eval_nat_numeral)
  have n1: "b1 \<noteq> []" and n2: "b2 \<noteq> []" using assms(2,3) by auto
  from capture_loop_block[where rd=rd and endpoint=endpoint and block_size=1048576 and st=st
         and clock=clock and total_bytes=0 and i=0 and num_loops=3, OF _ _ r1 n1]
  obtain p1 q1 where s1:
    "capture_loop rd clock endpoint 3 1048576 0 0 st =
       capture_loop rd clock endpoint 3 1048576 1 (int (length b1))
         (st\<lparr>world := w1, ticks := ticks st + 2, sink := sink st @ b1,
             console := console st @ [Progress 1 3 p1 q1]\<rparr>)"
    by auto
  let ?st1 = "st\<lparr>world := w1, ticks := ticks st + 2, sink := sink st @ b1,
             console := console st @ [Progress 1 3 p1 q1]\<rparr>"
  have r2': "rd endpoint 1048576 (world ?st1) = (Inr b2, w2)" using r2 by simp
  from capture_loop_block[where rd=rd and endpoint=endpoint and block_size=1048576 and st="?st1"
         and clock=clock and total_bytes="int (length b1)" and i=1 and num_loops=3, OF _ _ r2' n2]
  obtain p2 q2 where s2:
    "capture_loop rd clock endpoint 3 1048576 1 (int (length b1)) ?st1 =
       capture_loop rd clock endpoint 3 1048576 2 (int (length b1) + int (length b2))
         (?st1\<lparr>world := w2, ticks := ticks ?st1 + 2, sink := sink ?st1 @ b2,
             console := console ?st1 @ [Progress 2 3 p2 q2]\<rparr>)"
    by auto
  let ?st2 = "?st1\<lparr>world := w2, ticks := ticks ?st1 + 2, sink := sink ?st1 @ b2,
             console := console ?st1 @ [Progress 2 3 p2 q2]\<rparr>"
  have r3': "rd endpoint 1048576 (world ?st2) = (Inr [], w3)" using r3 by simp
  have s3: "capture_loop rd clock endpoint 3 1048576 2 (int (length b1) + int (length b2)) ?st2 =
              (Inr (int (length b1) + int (length b2)),
               ?st2\<lparr>world := w3, ticks := ticks ?st2 + 2, console := console ?st2 @ [No_data (2 + 1)]\<rparr>)"
    by (rule capture_loop_no_data[where rd=rd and endpoint=endpoint and block_size=1048576
          and st="?st2" and w=w3, OF _ r3']) simp
  have run: "capture_loop rd clock endpoint 3 1048576 0 0 st =
              (Inr 2097152,
               ?st2\<lparr>world := w3, ticks := ticks ?st2 + 2, console := console ?st2 @ [No_data 3]\<rparr>)"
    using s1 s2 s3 assms(2,3) by simp
  note cd = capture_data_fst_snd[OF run]
  show ?thesis by (simp add: cd)
qed

text \<open>
  The scenario of C7 on a scripted device with two blocks of one MiB of zero bytes.
\<close>

theorem capture_stops_at_empty_block_witness:
  "fst (capture_data script_rd of_nat ENDPOINT_COOKED 3 1048576
          \<lparr>world = [Inr mib_block, Inr mib_block, Inr []], ticks = 0, sink = [], console = []\<rparr>)
     = Inr 2097152 \<and>
   sink (snd (capture_data script_rd of_nat ENDPOINT_COOKED 3 1048576
          \<lparr>world = [Inr mib_block, Inr mib_block, Inr []], ticks = 0, sink = [], console = []\<rparr>))
     = mib_block @ mib_block"
proof -
  let ?st = "\<lparr>world = [Inr mib_block, Inr mib_block, Inr []], ticks = 0, sink = [] :: byte list,
              console = []\<rparr>"
  have a: "responses script_rd ENDPOINT_COOKED 1048576 3 (world ?st) = [Inr mib_block, Inr mib_block, Inr []]"
    by (simp add: eval_nat_numeral)
  from capture_stops_at_empty_block[OF a length_mib_block length_mib_block, of of_nat]
  show ?thesis by simp
qed

text \<open>
  Claim C9. For every number of bytes and every elapsed time, the transfer rate is a value,
  never a division fault; and when the elapsed time is zero or negative the rate is 0 (the
  division is in the other branch of the test \<open>elapsed > 0\<close>).
\<close>

theorem transfer_rate_never_faults:
  "(elapsed \<le> 0 \<longrightarrow> transfer_rate n elapsed = Inr 0) \<and> (\<exists>r. transfer_rate n elapsed = Inr r)"
  by (simp add: transfer_rate_def py_truediv_def)

text \<open>
  Instances of C9: elapsed times 0 and \<open>-2\<close>, and a positive one.
\<close>

theorem transfer_rate_never_faults_witness:
  "transfer_rate 1048576 0 = Inr 0 \<and> transfer_rate 1048576 (- 2) = Inr 0 \<and>
   transfer_rate 1000000 2 = Inr 4"
proof -
  have "transfer_rate 1000000 2 = Inr 4" by (simp add: transfer_rate_def py_truediv_def)
  with transfer_rate_never_faults[of 0 1048576] transfer_rate_never_faults[of "- 2" 1048576]
  show ?thesis by simp
qed

end
